theory Spec2Isabelle
  imports Main "HOL-Library.AList"
begin

section \<open>Data model of labwatch.go\<close>

text \<open>
  The types \<^verbatim>\<open>talos.NodeStatus\<close>, \<^verbatim>\<open>loki.LogStats\<close> and \<^verbatim>\<open>loki.LogEvent\<close> are declared
  in the watcher packages; \<^verbatim>\<open>labwatch.go\<close> only stores and forwards their values, so they
  are the type parameters \<open>'ns\<close>, \<open>'ls\<close> and \<open>'ev\<close>. The zero value of \<^verbatim>\<open>loki.LogStats\<close> is
  the \<open>0\<close> of \<open>'ls\<close>.

  \<^verbatim>\<open>type LabStatus struct { Talos map[string]talos.NodeStatus; Logs loki.LogStats }\<close>.
  A Go map value is either \<^verbatim>\<open>nil\<close> (\<open>None\<close>) or a map (\<open>Some m\<close>).
\<close>

type_synonym 'ns nodeHealth = "(string \<rightharpoonup> 'ns) option"

record ('ns, 'ls) labStatus =
  Talos :: "'ns nodeHealth"
  Logs :: 'ls

text \<open>The composite literal \<^verbatim>\<open>LabStatus{}\<close>: every field has its zero value.\<close>

definition zeroLabStatus :: "('ns, 'ls::zero) labStatus" where
  "zeroLabStatus = \<lparr>Talos = None, Logs = 0\<rparr>"

text \<open>
  A channel made by \<^verbatim>\<open>make(chan T)\<close> is identified by a number. A subscriber registry
  (\<^verbatim>\<open>map[string]chan<- T\<close>) is an association list from subscriber id to channel;
  \<^verbatim>\<open>m[id] = ch\<close> is \<open>AList.update\<close>, \<^verbatim>\<open>delete(m, id)\<close> is \<open>AList.delete\<close>, \<^verbatim>\<open>len(m)\<close> is
  \<open>length\<close> (the keys of a registry are distinct, see \<open>registriesDistinct\<close> below). Go
  leaves the order of \<^verbatim>\<open>range\<close> over a map unspecified; the model ranges in list order.
\<close>

type_synonym chan = nat
type_synonym clients = "(string \<times> chan) list"

subsection \<open>Observable effects\<close>

text \<open>The levels of \<^verbatim>\<open>log/slog\<close> and the values the library gives them.\<close>

datatype level = LevelDebug | LevelInfo | LevelWarn | LevelError

fun levelValue :: "level \<Rightarrow> int" where
  "levelValue LevelDebug = - 4"
| "levelValue LevelInfo = 0"
| "levelValue LevelWarn = 4"
| "levelValue LevelError = 8"

text \<open>The \<^verbatim>\<open>switch *logLevel\<close> of \<^verbatim>\<open>main\<close>: the handler's minimum level, \<^verbatim>\<open>LevelInfo\<close> unless
  the flag names another one.\<close>

definition handlerLevel :: "string \<Rightarrow> level" where
  "handlerLevel logLevel =
     (if logLevel = ''error'' then LevelError
      else if logLevel = ''warn'' then LevelWarn
      else if logLevel = ''info'' then LevelInfo
      else if logLevel = ''debug'' then LevelDebug
      else LevelInfo)"

text \<open>A handler writes a record when the record's level is at least its minimum level.\<close>

definition enabled :: "level \<Rightarrow> level \<Rightarrow> bool" where
  "enabled minLevel l = (levelValue minLevel \<le> levelValue l)"

datatype registry = StatusReg | EventReg

datatype access = MapAssign | MapDelete | MapLen | MapRange

text \<open>
  What a function does besides changing the variables: a call of the logger (level,
  message, the numeric attributes), \<^verbatim>\<open>time.Sleep\<close> (in milliseconds), \<^verbatim>\<open>lock.Lock()\<close> and
  \<^verbatim>\<open>lock.Unlock()\<close>, an access to one of the two registry maps, and a send \<^verbatim>\<open>ch <- v\<close> on a
  subscriber's channel that has completed: the subscriber's handler has received \<^verbatim>\<open>v\<close>.
\<close>

datatype ('ns, 'ls, 'ev) effect =
    LogCall level string "(string \<times> nat) list"
  | Sleep nat
  | Lock
  | Unlock
  | Access registry access
  | SendStatus chan "('ns, 'ls) labStatus"
  | SendEvent chan 'ev

subsection \<open>Program state\<close>

text \<open>
  The package variables \<^verbatim>\<open>currentStatus\<close>, \<^verbatim>\<open>statusClients\<close> and \<^verbatim>\<open>eventClients\<close>, the
  variable \<^verbatim>\<open>status\<close> of \<^verbatim>\<open>startWatchers\<close> that the watch loop's closure captures, the
  subscriber channel on which the watch loop waits in a send that no handler will take
  (\<open>None\<close> when it waits in no such send), and the effects so far, oldest first.
\<close>

record ('ns, 'ls, 'ev) state =
  currentStatus :: "('ns, 'ls) labStatus"
  statusClients :: clients
  eventClients :: clients
  status :: "('ns, 'ls) labStatus"
  blockedOn :: "chan option"
  effects :: "('ns, 'ls, 'ev) effect list"

definition initState :: "('ns, 'ls::zero, 'ev) state" where
  "initState =
     \<lparr>currentStatus = zeroLabStatus, statusClients = [], eventClients = [],
      status = zeroLabStatus, blockedOn = None, effects = []\<rparr>"

definition emit ::
  "('ns, 'ls, 'ev) effect list \<Rightarrow> ('ns, 'ls, 'ev) state \<Rightarrow> ('ns, 'ls, 'ev) state" where
  "emit es s = s\<lparr>effects := effects s @ es\<rparr>"

section \<open>The subscriber registries\<close>

definition addStatusClient ::
  "string \<Rightarrow> chan \<Rightarrow> ('ns, 'ls, 'ev) state \<Rightarrow> ('ns, 'ls, 'ev) state" where
  "addStatusClient uid ch s =
     emit [Unlock]
       ((emit [Lock, Access StatusReg MapAssign] s)
          \<lparr>statusClients := AList.update uid ch (statusClients s)\<rparr>)"

definition removeStatusClient ::
  "string \<Rightarrow> ('ns, 'ls, 'ev) state \<Rightarrow> ('ns, 'ls, 'ev) state" where
  "removeStatusClient uid s =
     emit [Unlock]
       ((emit [Lock, Access StatusReg MapDelete] s)
          \<lparr>statusClients := AList.delete uid (statusClients s)\<rparr>)"

definition addEventClient ::
  "string \<Rightarrow> chan \<Rightarrow> ('ns, 'ls, 'ev) state \<Rightarrow> ('ns, 'ls, 'ev) state" where
  "addEventClient uid ch s =
     emit [Unlock]
       ((emit [Lock, Access EventReg MapAssign] s)
          \<lparr>eventClients := AList.update uid ch (eventClients s)\<rparr>)"

definition removeEventClient ::
  "string \<Rightarrow> ('ns, 'ls, 'ev) state \<Rightarrow> ('ns, 'ls, 'ev) state" where
  "removeEventClient uid s =
     emit [Unlock]
       ((emit [Lock, Access EventReg MapDelete] s)
          \<lparr>eventClients := AList.delete uid (eventClients s)\<rparr>)"

section \<open>The watch loop of startWatchers\<close>

text \<open>
  A receive \<^verbatim>\<open>v, ok := <-c\<close>: \<open>Recv v\<close> is \<^verbatim>\<open>(v, true)\<close>; \<open>RecvClosed\<close> is \<^verbatim>\<open>(zero, false)\<close>, what
  a closed channel gives (the loop never reads \<^verbatim>\<open>v\<close> then).
\<close>

datatype 'a recv = Recv 'a | RecvClosed

text \<open>The case of the \<^verbatim>\<open>select\<close> statement that runs in one iteration.\<close>

datatype ('ns, 'ls, 'ev) selected =
    CaseTInfo "'ns nodeHealth recv"
  | CaseStats "'ls recv"
  | CaseEvents "'ev recv"
  | CaseDefault

text \<open>
  What a producer channel offers when the \<^verbatim>\<open>select\<close> looks at it: nothing (a receive would
  block), a value a sender is waiting to hand over, or its closure (a receive from a
  closed channel never blocks).
\<close>

datatype 'a offer = NotReady | Offer 'a | Closed

fun ready :: "'a offer \<Rightarrow> 'a recv option" where
  "ready NotReady = None"
| "ready (Offer v) = Some (Recv v)"
| "ready Closed = Some RecvClosed"

text \<open>
  Go's \<^verbatim>\<open>select\<close>: when one or more cases can proceed, one of them is chosen (by a
  pseudo-random choice, here the number \<open>pick\<close>); when none can, the \<^verbatim>\<open>default\<close> case runs.
\<close>

definition selectCase ::
  "nat \<Rightarrow> 'ns nodeHealth offer \<Rightarrow> 'ls offer \<Rightarrow> 'ev offer \<Rightarrow> ('ns, 'ls, 'ev) selected" where
  "selectCase pick tInfo stats events =
     (let cands =
        (case ready tInfo of None \<Rightarrow> [] | Some r \<Rightarrow> [CaseTInfo r]) @
        (case ready stats of None \<Rightarrow> [] | Some r \<Rightarrow> [CaseStats r]) @
        (case ready events of None \<Rightarrow> [] | Some r \<Rightarrow> [CaseEvents r])
      in if cands = [] then CaseDefault else cands ! (pick mod length cands))"

text \<open>
  \<^verbatim>\<open>for _, ch := range m { ch <- v }\<close>. The subscriber channels are unbuffered
  (\<^verbatim>\<open>make(chan T)\<close>), so a send completes when the subscriber's handler receives, and
  waits until then. \<open>receiving\<close> is the set of channels whose handler receives what the
  loop sends it in this iteration. A send on a channel outside \<open>receiving\<close> never
  completes: the loop stays in it, and nothing that follows it in the program runs.
  The result is the sends that completed and the channel the loop is left waiting on,
  if any. The registry is ranged as it is when the broadcast begins (no handler
  registers or unregisters during the iteration).
\<close>

fun sendEach ::
  "chan set \<Rightarrow> (chan \<Rightarrow> ('ns, 'ls, 'ev) effect) \<Rightarrow> clients \<Rightarrow>
   ('ns, 'ls, 'ev) effect list \<times> chan option" where
  "sendEach receiving send [] = ([], None)"
| "sendEach receiving send ((uid, ch) # cs) =
     (if ch \<in> receiving
      then (case sendEach receiving send cs of (es, blocked) \<Rightarrow> (send ch # es, blocked))
      else ([], Some ch))"

text \<open>
  The body of the \<^verbatim>\<open>select\<close>: the new state and the flag \<^verbatim>\<open>broadcastStatusUpdate\<close>. The
  \<^verbatim>\<open>default\<close> case sleeps and leaves the iteration by \<^verbatim>\<open>continue\<close>, with the flag still
  false.
\<close>

fun selectBody ::
  "chan set \<Rightarrow> ('ns, 'ls, 'ev) state \<Rightarrow> ('ns, 'ls, 'ev) selected \<Rightarrow>
   ('ns, 'ls, 'ev) state \<times> bool" where
  "selectBody receiving s (CaseTInfo (Recv t)) = (s\<lparr>status := (status s)\<lparr>Talos := t\<rparr>\<rparr>, True)"
| "selectBody receiving s (CaseTInfo RecvClosed) =
     (emit [LogCall LevelError ''error encountered reading talos states'' []] s, False)"
| "selectBody receiving s (CaseStats (Recv l)) = (s\<lparr>status := (status s)\<lparr>Logs := l\<rparr>\<rparr>, True)"
| "selectBody receiving s (CaseStats RecvClosed) =
     (emit [LogCall LevelError ''error encountered reading log stats'' []] s, False)"
| "selectBody receiving s (CaseEvents (Recv e)) =
     (case sendEach receiving (\<lambda>ch. SendEvent ch e) (eventClients s) of
        (sends, blocked) \<Rightarrow>
          ((emit (Access EventReg MapRange # sends)
             (emit [Access EventReg MapLen,
                    LogCall LevelDebug ''broadcasting event''
                      [(''clients'', length (eventClients s))]] s))
           \<lparr>blockedOn := blocked\<rparr>,
           False))"
| "selectBody receiving s (CaseEvents RecvClosed) =
     (emit [LogCall LevelError ''error encountered reading '' []] s, False)"
| "selectBody receiving s CaseDefault = (emit [Sleep 100] s, False)"

text \<open>The \<^verbatim>\<open>if broadcastStatusUpdate\<close> block.\<close>

definition broadcastStatus ::
  "chan set \<Rightarrow> ('ns, 'ls, 'ev) state \<Rightarrow> ('ns, 'ls, 'ev) state" where
  "broadcastStatus receiving s =
     (case sendEach receiving (\<lambda>ch. SendStatus ch (status s)) (statusClients s) of
        (sends, blocked) \<Rightarrow>
          (emit (Access StatusReg MapRange # sends)
             (emit [Access StatusReg MapLen,
                    LogCall LevelDebug ''broadcasting status''
                      [(''clients'', length (statusClients s))]]
                (s\<lparr>currentStatus := status s\<rparr>)))
          \<lparr>blockedOn := blocked\<rparr>)"

text \<open>One iteration of \<^verbatim>\<open>for { ... }\<close>, begun at the \<^verbatim>\<open>select\<close>.\<close>

definition loopBody ::
  "chan set \<Rightarrow> ('ns, 'ls, 'ev) state \<Rightarrow> ('ns, 'ls, 'ev) selected \<Rightarrow> ('ns, 'ls, 'ev) state" where
  "loopBody receiving s sel =
     (case selectBody receiving s sel of
        (s', broadcastStatusUpdate) \<Rightarrow>
          if broadcastStatusUpdate then broadcastStatus receiving s' else s')"

text \<open>
  The loop has no \<^verbatim>\<open>break\<close> and no \<^verbatim>\<open>return\<close>; it runs beside the connection handlers,
  which call the four registry functions. A run of the program is a sequence of loop
  iterations and registry calls, each taken as one step; a list of steps is a finite
  prefix of the execution, which every further step extends. An iteration comes with
  the \<^verbatim>\<open>select\<close> case it runs and the set of channels whose handler receives. The loop
  begins an iteration only when it is not waiting in a send: once it waits on a channel
  that no handler takes, it runs no further iteration, while the handlers go on calling
  the registry functions.
\<close>

datatype ('ns, 'ls, 'ev) action =
    Iterate "('ns, 'ls, 'ev) selected" "chan set"
  | AddStatusClient string chan
  | RemoveStatusClient string
  | AddEventClient string chan
  | RemoveEventClient string

fun perform ::
  "('ns, 'ls, 'ev) state \<Rightarrow> ('ns, 'ls, 'ev) action \<Rightarrow> ('ns, 'ls, 'ev) state" where
  "perform s (Iterate sel receiving) =
     (if blockedOn s = None then loopBody receiving s sel else s)"
| "perform s (AddStatusClient uid ch) = addStatusClient uid ch s"
| "perform s (RemoveStatusClient uid) = removeStatusClient uid s"
| "perform s (AddEventClient uid ch) = addEventClient uid ch s"
| "perform s (RemoveEventClient uid) = removeEventClient uid s"

definition run ::
  "('ns, 'ls, 'ev) state \<Rightarrow> ('ns, 'ls, 'ev) action list \<Rightarrow> ('ns, 'ls, 'ev) state" where
  "run s acts = foldl perform s acts"

section \<open>The connection handlers of main\<close>

text \<open>
  What a handler takes from its surroundings: the request's \<^verbatim>\<open>Upgrade\<close> header, whether
  \<^verbatim>\<open>u.Upgrade\<close> succeeds, the string of \<^verbatim>\<open>uuid.New()\<close> and the channel of \<^verbatim>\<open>make(chan ...)\<close>.
\<close>

record request =
  upgradeHeader :: string
  upgradeOk :: bool
  newUuid :: string
  newChan :: chan

text \<open>
  What a handler writes to its client: the body of a plain response (\<^verbatim>\<open>w.Write\<close>), or a
  text message on the websocket together with whether \<^verbatim>\<open>conn.WriteMessage\<close> succeeded.
\<close>

datatype written = ResponseBody string | TextMessage string bool

text \<open>
  The \<^verbatim>\<open>select\<close> of a handler's loop: the request's context is done, or a value arrives on
  the handler's channel (with the outcome of the write that follows).
\<close>

datatype 'a chanSel = CtxDone | FromChan 'a bool

text \<open>
  The \<^verbatim>\<open>for { select { ... } }\<close> of both handlers, over the outcomes of its \<^verbatim>\<open>select\<close>: the
  messages written, and whether the handler has returned (it has not when it is still
  waiting in \<^verbatim>\<open>select\<close>). \<open>marshal\<close> stands for \<^verbatim>\<open>json.Marshal\<close>.
\<close>

fun streamLoop :: "('a \<Rightarrow> string) \<Rightarrow> 'a chanSel list \<Rightarrow> written list \<times> bool" where
  "streamLoop marshal [] = ([], False)"
| "streamLoop marshal (CtxDone # sels) = ([], True)"
| "streamLoop marshal (FromChan v ok # sels) =
     (if ok
      then (case streamLoop marshal sels of
              (ws, returned) \<Rightarrow> (TextMessage (marshal v) True # ws, returned))
      else ([TextMessage (marshal v) False], True))"

text \<open>
  The handler of \<^verbatim>\<open>/status\<close>. \<^verbatim>\<open>defer removeStatusClient(uuid)\<close> runs when the handler
  returns.
\<close>

definition statusHandler ::
  "(('ns, 'ls) labStatus \<Rightarrow> string) \<Rightarrow> request \<Rightarrow> bool \<Rightarrow> ('ns, 'ls) labStatus chanSel list \<Rightarrow>
   ('ns, 'ls, 'ev) state \<Rightarrow> ('ns, 'ls, 'ev) state \<times> written list" where
  "statusHandler marshal req firstWriteOk sels s =
     (if upgradeHeader req = [] then (s, [ResponseBody (marshal (currentStatus s))])
      else if upgradeOk req then
        (let s1 = addStatusClient (newUuid req) (newChan req) s;
             data = marshal (currentStatus s1)
         in if firstWriteOk then
              (case streamLoop marshal sels of
                 (ws, returned) \<Rightarrow>
                   (if returned then removeStatusClient (newUuid req) s1 else s1,
                    TextMessage data True # ws))
            else
              (removeStatusClient (newUuid req) (emit [LogCall LevelInfo ''write failed'' []] s1),
               [TextMessage data False]))
      else (emit [LogCall LevelInfo ''upgrade failed'' []] s, []))"

text \<open>The handler of \<^verbatim>\<open>/events\<close>.\<close>

definition eventHandler ::
  "('ev \<Rightarrow> string) \<Rightarrow> request \<Rightarrow> 'ev chanSel list \<Rightarrow>
   ('ns, 'ls, 'ev) state \<Rightarrow> ('ns, 'ls, 'ev) state \<times> written list" where
  "eventHandler marshal req sels s =
     (if upgradeOk req then
        (let s1 = addEventClient (newUuid req) (newChan req) s
         in case streamLoop marshal sels of
              (ws, returned) \<Rightarrow>
                (if returned then removeEventClient (newUuid req) s1 else s1, ws))
      else (emit [LogCall LevelInfo ''upgrade failed'' []] s, []))"

section \<open>Notions the properties are stated with\<close>

text \<open>The sends of snapshots and of events among a list of effects, in order.\<close>

fun statusSend :: "('ns, 'ls, 'ev) effect \<Rightarrow> (chan \<times> ('ns, 'ls) labStatus) list" where
  "statusSend (SendStatus ch st) = [(ch, st)]"
| "statusSend _ = []"

fun eventSend :: "('ns, 'ls, 'ev) effect \<Rightarrow> (chan \<times> 'ev) list" where
  "eventSend (SendEvent ch e) = [(ch, e)]"
| "eventSend _ = []"

definition statusSends :: "('ns, 'ls, 'ev) effect list \<Rightarrow> (chan \<times> ('ns, 'ls) labStatus) list" where
  "statusSends es = concat (map statusSend es)"

definition eventSends :: "('ns, 'ls, 'ev) effect list \<Rightarrow> (chan \<times> 'ev) list" where
  "eventSends es = concat (map eventSend es)"

text \<open>
  The specification's merge: the node-health value and the log-stats value that a step
  of a run delivers to the loop, and the snapshot made of the latest of each, a field
  with no update keeping the value it had.
\<close>

fun healthUpdate :: "('ns, 'ls, 'ev) action \<Rightarrow> 'ns nodeHealth option" where
  "healthUpdate (Iterate (CaseTInfo (Recv t)) receiving) = Some t"
| "healthUpdate _ = None"

fun statsUpdate :: "('ns, 'ls, 'ev) action \<Rightarrow> 'ls option" where
  "statsUpdate (Iterate (CaseStats (Recv l)) receiving) = Some l"
| "statsUpdate _ = None"

definition mergeLatest ::
  "('ns, 'ls) labStatus \<Rightarrow> ('ns, 'ls, 'ev) action list \<Rightarrow> ('ns, 'ls) labStatus" where
  "mergeLatest prev acts =
     \<lparr>Talos = last (Talos prev # List.map_filter healthUpdate acts),
      Logs = last (Logs prev # List.map_filter statsUpdate acts)\<rparr>"

text \<open>
  The steps of a run that took place: an iteration listed after the loop was left
  waiting in a send did not, and the loop received nothing in it.
\<close>

fun takesPlace :: "('ns, 'ls, 'ev) state \<Rightarrow> ('ns, 'ls, 'ev) action \<Rightarrow> bool" where
  "takesPlace s (Iterate sel receiving) = (blockedOn s = None)"
| "takesPlace s _ = True"

fun processed ::
  "('ns, 'ls, 'ev) state \<Rightarrow> ('ns, 'ls, 'ev) action list \<Rightarrow> ('ns, 'ls, 'ev) action list" where
  "processed s [] = []"
| "processed s (a # acts) =
     (if takesPlace s a then a # processed (perform s a) acts else processed s acts)"

text \<open>A step in which every handler receives what the loop sends it.\<close>

fun receivesAll :: "('ns, 'ls, 'ev) action \<Rightarrow> bool" where
  "receivesAll (Iterate sel receiving) = (receiving = UNIV)"
| "receivesAll _ = True"

text \<open>
  What the handler of the watch loop's logger writes for the records the loop gives it:
  those whose level is enabled, with their level and message.
\<close>

fun logRecord :: "level \<Rightarrow> ('ns, 'ls, 'ev) effect \<Rightarrow> (level \<times> string) list" where
  "logRecord minLevel (LogCall lv msg attrs) = (if enabled minLevel lv then [(lv, msg)] else [])"
| "logRecord minLevel _ = []"

definition logOutput :: "level \<Rightarrow> ('ns, 'ls, 'ev) effect list \<Rightarrow> (level \<times> string) list" where
  "logOutput minLevel es = concat (map (logRecord minLevel) es)"

text \<open>A state without the records the logger was given at level \<^verbatim>\<open>Error\<close>.\<close>

fun isErrorLog :: "('ns, 'ls, 'ev) effect \<Rightarrow> bool" where
  "isErrorLog (LogCall LevelError msg attrs) = True"
| "isErrorLog _ = False"

definition dropErrorLogs :: "('ns, 'ls, 'ev) state \<Rightarrow> ('ns, 'ls, 'ev) state" where
  "dropErrorLogs s = s\<lparr>effects := filter (\<lambda>e. \<not> isErrorLog e) (effects s)\<rparr>"

text \<open>
  The lock discipline of a sequence of effects of one goroutine: every access to a
  registry map happens between \<^verbatim>\<open>lock.Lock()\<close> and \<^verbatim>\<open>lock.Unlock()\<close>. The first argument
  tells whether the goroutine holds the lock at the start.
\<close>

fun lockDiscipline :: "bool \<Rightarrow> ('ns, 'ls, 'ev) effect list \<Rightarrow> bool" where
  "lockDiscipline held [] = True"
| "lockDiscipline held (Lock # es) = lockDiscipline True es"
| "lockDiscipline held (Unlock # es) = lockDiscipline False es"
| "lockDiscipline held (Access r a # es) = (held \<and> lockDiscipline held es)"
| "lockDiscipline held (e # es) = lockDiscipline held es"

text \<open>No subscriber id occurs twice in a registry, as in a Go map.\<close>

definition registriesDistinct :: "('ns, 'ls, 'ev) state \<Rightarrow> bool" where
  "registriesDistinct s =
     (distinct (map fst (statusClients s)) \<and> distinct (map fst (eventClients s)))"

section \<open>Basic facts\<close>

lemma emit_fields [simp]:
  "currentStatus (emit es s) = currentStatus s"
  "statusClients (emit es s) = statusClients s"
  "eventClients (emit es s) = eventClients s"
  "status (emit es s) = status s"
  "blockedOn (emit es s) = blockedOn s"
  "effects (emit es s) = effects s @ es"
  by (simp_all add: emit_def)

lemma statusSends_append [simp]: "statusSends (xs @ ys) = statusSends xs @ statusSends ys"
  by (simp add: statusSends_def)

lemma eventSends_append [simp]: "eventSends (xs @ ys) = eventSends xs @ eventSends ys"
  by (simp add: eventSends_def)

lemma logOutput_append [simp]: "logOutput lv (xs @ ys) = logOutput lv xs @ logOutput lv ys"
  by (simp add: logOutput_def)

lemma statusSends_Cons [simp]:
  "statusSends (Access r a # es) = statusSends es"
  "statusSends (LogCall lv m as # es) = statusSends es"
  "statusSends (Sleep n # es) = statusSends es"
  "statusSends (SendEvent ch e # es) = statusSends es"
  "statusSends (SendStatus ch st # es) = (ch, st) # statusSends es"
  "statusSends [] = []"
  by (simp_all add: statusSends_def)

lemma eventSends_Cons [simp]:
  "eventSends (Access r a # es) = eventSends es"
  "eventSends (LogCall lv m as # es) = eventSends es"
  "eventSends (Sleep n # es) = eventSends es"
  "eventSends (SendStatus ch st # es) = eventSends es"
  "eventSends (SendEvent ch e # es) = (ch, e) # eventSends es"
  "eventSends [] = []"
  by (simp_all add: eventSends_def)

text \<open>The sends of a broadcast: one for each channel up to the first that is not taken.\<close>

lemma sendEach_status:
  "statusSends (fst (sendEach rcv (\<lambda>ch. SendStatus ch st) cs)) =
     map (\<lambda>ch. (ch, st)) (takeWhile (\<lambda>ch. ch \<in> rcv) (map snd cs))"
  by (induction cs) (auto simp: case_prod_beta)

lemma sendEach_status_events:
  "eventSends (fst (sendEach rcv (\<lambda>ch. SendStatus ch st) cs)) = []"
  by (induction cs) (auto simp: case_prod_beta)

lemma sendEach_event:
  "eventSends (fst (sendEach rcv (\<lambda>ch. SendEvent ch e) cs)) =
     map (\<lambda>ch. (ch, e)) (takeWhile (\<lambda>ch. ch \<in> rcv) (map snd cs))"
  by (induction cs) (auto simp: case_prod_beta)

lemma sendEach_event_status:
  "statusSends (fst (sendEach rcv (\<lambda>ch. SendEvent ch e) cs)) = []"
  by (induction cs) (auto simp: case_prod_beta)

lemma sendEach_blocked:
  "snd (sendEach rcv send cs) = List.find (\<lambda>ch. ch \<notin> rcv) (map snd cs)"
  by (induction cs) (auto simp: case_prod_beta)

lemma sendEach_status_sleeps:
  "Sleep n \<notin> set (fst (sendEach rcv (\<lambda>ch. SendStatus ch st) cs))"
  by (induction cs) (auto simp: case_prod_beta split: if_splits)

lemma sendEach_event_sleeps:
  "Sleep n \<notin> set (fst (sendEach rcv (\<lambda>ch. SendEvent ch e) cs))"
  by (induction cs) (auto simp: case_prod_beta split: if_splits)

lemma run_Nil [simp]: "run s [] = s"
  by (simp add: run_def)

lemma run_Cons [simp]: "run s (a # acts) = run (perform s a) acts"
  by (simp add: run_def)

lemma run_append: "run s (xs @ ys) = run (run s xs) ys"
  by (simp add: run_def)

subsection \<open>What an iteration does to each variable\<close>

lemma loopBody_registries:
  "statusClients (loopBody rcv s sel) = statusClients s"
  "eventClients (loopBody rcv s sel) = eventClients s"
  by (cases "(rcv, s, sel)" rule: selectBody.cases;
      simp add: loopBody_def broadcastStatus_def case_prod_beta)+

lemma loopBody_status:
  "status (loopBody rcv s sel) =
     (case sel of
        CaseTInfo (Recv t) \<Rightarrow> (status s)\<lparr>Talos := t\<rparr>
      | CaseStats (Recv l) \<Rightarrow> (status s)\<lparr>Logs := l\<rparr>
      | _ \<Rightarrow> status s)"
  by (cases "(rcv, s, sel)" rule: selectBody.cases)
     (simp_all add: loopBody_def broadcastStatus_def case_prod_beta)

lemma loopBody_currentStatus:
  "currentStatus (loopBody rcv s sel) =
     (case sel of
        CaseTInfo (Recv t) \<Rightarrow> (status s)\<lparr>Talos := t\<rparr>
      | CaseStats (Recv l) \<Rightarrow> (status s)\<lparr>Logs := l\<rparr>
      | _ \<Rightarrow> currentStatus s)"
  by (cases "(rcv, s, sel)" rule: selectBody.cases)
     (simp_all add: loopBody_def broadcastStatus_def case_prod_beta)

lemma loopBody_statusSends:
  "statusSends (effects (loopBody rcv s sel)) =
     statusSends (effects s) @
     (case sel of
        CaseTInfo (Recv t) \<Rightarrow>
          map (\<lambda>ch. (ch, (status s)\<lparr>Talos := t\<rparr>))
            (takeWhile (\<lambda>ch. ch \<in> rcv) (map snd (statusClients s)))
      | CaseStats (Recv l) \<Rightarrow>
          map (\<lambda>ch. (ch, (status s)\<lparr>Logs := l\<rparr>))
            (takeWhile (\<lambda>ch. ch \<in> rcv) (map snd (statusClients s)))
      | _ \<Rightarrow> [])"
  by (cases "(rcv, s, sel)" rule: selectBody.cases)
     (simp_all add: loopBody_def broadcastStatus_def case_prod_beta sendEach_status
        sendEach_event_status)

lemma loopBody_eventSends:
  "eventSends (effects (loopBody rcv s sel)) =
     eventSends (effects s) @
     (case sel of
        CaseEvents (Recv e) \<Rightarrow>
          map (\<lambda>ch. (ch, e)) (takeWhile (\<lambda>ch. ch \<in> rcv) (map snd (eventClients s)))
      | _ \<Rightarrow> [])"
  by (cases "(rcv, s, sel)" rule: selectBody.cases)
     (simp_all add: loopBody_def broadcastStatus_def case_prod_beta sendEach_event
        sendEach_status_events)

lemma loopBody_blockedOn:
  "blockedOn (loopBody rcv s sel) =
     (case sel of
        CaseTInfo (Recv t) \<Rightarrow> List.find (\<lambda>ch. ch \<notin> rcv) (map snd (statusClients s))
      | CaseStats (Recv l) \<Rightarrow> List.find (\<lambda>ch. ch \<notin> rcv) (map snd (statusClients s))
      | CaseEvents (Recv e) \<Rightarrow> List.find (\<lambda>ch. ch \<notin> rcv) (map snd (eventClients s))
      | _ \<Rightarrow> blockedOn s)"
  by (cases "(rcv, s, sel)" rule: selectBody.cases)
     (simp_all add: loopBody_def broadcastStatus_def case_prod_beta sendEach_blocked)

lemma loopBody_sleeps:
  "(Sleep n \<in> set (effects (loopBody rcv s sel))) =
     (Sleep n \<in> set (effects s) \<or> (sel = CaseDefault \<and> n = 100))"
  by (cases "(rcv, s, sel)" rule: selectBody.cases)
     (auto simp: loopBody_def broadcastStatus_def case_prod_beta sendEach_status_sleeps
        sendEach_event_sleeps)

subsection \<open>The registries keep their ids distinct\<close>

lemma perform_registriesDistinct:
  "registriesDistinct s \<Longrightarrow> registriesDistinct (perform s a)"
  by (cases a)
     (simp_all add: registriesDistinct_def loopBody_registries addStatusClient_def
        removeStatusClient_def addEventClient_def removeEventClient_def
        distinct_update distinct_delete)

lemma run_registriesDistinct:
  "registriesDistinct s \<Longrightarrow> registriesDistinct (run s acts)"
  by (induction acts arbitrary: s) (simp_all add: perform_registriesDistinct)

lemma initState_registriesDistinct: "registriesDistinct initState"
  by (simp add: registriesDistinct_def initState_def)

lemma update_length_present:
  "k \<in> fst ` set al \<Longrightarrow> length (AList.update k v al) = length al"
  by (induction al) auto

lemma update_keys_present:
  "k \<in> fst ` set al \<Longrightarrow> map fst (AList.update k v al) = map fst al"
  by (simp add: update_keys)

lemma delete_update_fresh:
  "k \<notin> fst ` set al \<Longrightarrow> AList.delete k (AList.update k v al) = al"
  by (simp add: delete_update_same)

subsection \<open>A loop that waits in a send stays there\<close>

lemma perform_skipped: "\<not> takesPlace s a \<Longrightarrow> perform s a = s"
  by (cases a) auto

lemma perform_blocked: "blockedOn s = Some ch \<Longrightarrow> blockedOn (perform s a) = Some ch"
  by (cases a)
     (simp_all add: addStatusClient_def removeStatusClient_def addEventClient_def
        removeEventClient_def)

lemma run_blocked: "blockedOn s = Some ch \<Longrightarrow> blockedOn (run s acts) = Some ch"
  by (induction acts arbitrary: s) (simp_all add: perform_blocked)

lemma processed_all:
  "blockedOn (run s acts) = None \<Longrightarrow> processed s acts = acts"
proof (induction acts arbitrary: s)
  case Nil
  then show ?case by simp
next
  case (Cons a acts)
  have "takesPlace s a"
  proof (rule ccontr)
    assume no: "\<not> takesPlace s a"
    then obtain ch where "blockedOn s = Some ch"
      by (cases a) auto
    then have "blockedOn (run s (a # acts)) = Some ch"
      by (rule run_blocked)
    then show False using Cons.prems by simp
  qed
  then show ?case
    using Cons by simp
qed

lemma find_False: "List.find (\<lambda>ch. False) xs = None"
  by (induction xs) simp_all

lemma takeWhile_True: "takeWhile (\<lambda>ch. True) xs = xs"
  by (induction xs) simp_all

lemma perform_receivesAll:
  "blockedOn s = None \<Longrightarrow> receivesAll a \<Longrightarrow> blockedOn (perform s a) = None"
  by (cases a)
     (simp_all add: loopBody_blockedOn find_False addStatusClient_def
        removeStatusClient_def addEventClient_def removeEventClient_def
        split: selected.splits recv.splits)

lemma run_receivesAll:
  "blockedOn s = None \<Longrightarrow> list_all receivesAll acts \<Longrightarrow> blockedOn (run s acts) = None"
  by (induction acts arbitrary: s) (simp_all add: perform_receivesAll)

section \<open>The merge of the watch loop\<close>

text \<open>Between two iterations the loop's variable and the published snapshot agree.\<close>

lemma perform_published:
  "status s = currentStatus s \<Longrightarrow> status (perform s a) = currentStatus (perform s a)"
  by (cases a)
     (simp_all add: loopBody_status loopBody_currentStatus addStatusClient_def
       removeStatusClient_def addEventClient_def removeEventClient_def
       split: selected.splits recv.splits)

lemma perform_currentStatus:
  "status s = currentStatus s \<Longrightarrow> takesPlace s a \<Longrightarrow>
   currentStatus (perform s a) =
     \<lparr>Talos = (case healthUpdate a of Some t \<Rightarrow> t | None \<Rightarrow> Talos (currentStatus s)),
      Logs = (case statsUpdate a of Some l \<Rightarrow> l | None \<Rightarrow> Logs (currentStatus s))\<rparr>"
  by (cases "(s, a)" rule: perform.cases)
     (simp_all add: loopBody_currentStatus addStatusClient_def
       removeStatusClient_def addEventClient_def removeEventClient_def
       split: selected.splits recv.splits)

lemma mergeLatest_Nil: "mergeLatest prev [] = prev"
  by (simp add: mergeLatest_def List.map_filter_simps)

lemma mergeLatest_Cons:
  "mergeLatest prev (a # acts) =
     mergeLatest
       \<lparr>Talos = (case healthUpdate a of Some t \<Rightarrow> t | None \<Rightarrow> Talos prev),
        Logs = (case statsUpdate a of Some l \<Rightarrow> l | None \<Rightarrow> Logs prev)\<rparr> acts"
  by (simp add: mergeLatest_def List.map_filter_simps split: option.splits)

lemma run_published:
  "status s = currentStatus s \<Longrightarrow> status (run s acts) = currentStatus (run s acts)"
  by (induction acts arbitrary: s) (simp_all add: perform_published)

lemma run_currentStatus:
  "status s = currentStatus s \<Longrightarrow>
   currentStatus (run s acts) = mergeLatest (currentStatus s) (processed s acts)"
proof (induction acts arbitrary: s)
  case Nil
  then show ?case by (simp add: mergeLatest_Nil)
next
  case (Cons a acts)
  show ?case
  proof (cases "takesPlace s a")
    case True
    have "currentStatus (run (perform s a) acts) =
          mergeLatest (currentStatus (perform s a)) (processed (perform s a) acts)"
      using Cons.prems by (intro Cons.IH perform_published)
    then show ?thesis
      using Cons.prems True by (simp add: mergeLatest_Cons perform_currentStatus)
  next
    case False
    then show ?thesis
      using Cons by (simp add: perform_skipped)
  qed
qed

text \<open>
  C1. Take a state in which the loop's variable \<^verbatim>\<open>status\<close> and the published
  \<^verbatim>\<open>currentStatus\<close> agree, as at start-up and between any two iterations. After every
  sequence of loop iterations and registry calls the published snapshot is the latest
  node-health value and the latest log-stats value the loop received, a field with no
  update keeping its previous value, which is the zero value when the run starts from
  the initial state. The loop receives the update of every iteration that takes place,
  and every listed iteration does when the loop is never left waiting in a send, as
  when every handler receives what it is sent. A node-health update publishes the old
  snapshot with only \<^verbatim>\<open>Talos\<close> replaced, a log-stats update the old snapshot with only
  \<^verbatim>\<open>Logs\<close> replaced, and that snapshot is what the iteration sends, one after the other,
  to the registered status channels whose handlers receive.
\<close>

theorem merge_latest:
  assumes "status s = currentStatus s"
  shows "currentStatus (run s acts) = mergeLatest (currentStatus s) (processed s acts)
    \<and> (blockedOn (run s acts) = None \<longrightarrow>
         currentStatus (run s acts) = mergeLatest (currentStatus s) acts)
    \<and> (blockedOn s = None \<and> list_all receivesAll acts \<longrightarrow>
         currentStatus (run s acts) = mergeLatest (currentStatus s) acts)
    \<and> status (run s acts) = currentStatus (run s acts)
    \<and> currentStatus (run (initState :: ('ns0, 'ls0::zero, 'ev0) state) acts0) =
        mergeLatest zeroLabStatus (processed initState acts0)
    \<and> (list_all receivesAll acts0 \<longrightarrow>
         currentStatus (run (initState :: ('ns0, 'ls0::zero, 'ev0) state) acts0) =
         mergeLatest zeroLabStatus acts0)
    \<and> currentStatus (loopBody rcv s (CaseTInfo (Recv t))) = (currentStatus s)\<lparr>Talos := t\<rparr>
    \<and> currentStatus (loopBody rcv s (CaseStats (Recv l))) = (currentStatus s)\<lparr>Logs := l\<rparr>
    \<and> statusSends (effects (loopBody rcv s (CaseTInfo (Recv t)))) =
        statusSends (effects s) @
        map (\<lambda>ch. (ch, (currentStatus s)\<lparr>Talos := t\<rparr>))
          (takeWhile (\<lambda>ch. ch \<in> rcv) (map snd (statusClients s)))
    \<and> statusSends (effects (loopBody rcv s (CaseStats (Recv l)))) =
        statusSends (effects s) @
        map (\<lambda>ch. (ch, (currentStatus s)\<lparr>Logs := l\<rparr>))
          (takeWhile (\<lambda>ch. ch \<in> rcv) (map snd (statusClients s)))
    \<and> statusSends (effects (loopBody UNIV s (CaseTInfo (Recv t)))) =
        statusSends (effects s) @
        map (\<lambda>ch. (ch, (currentStatus s)\<lparr>Talos := t\<rparr>)) (map snd (statusClients s))
    \<and> statusSends (effects (loopBody UNIV s (CaseStats (Recv l)))) =
        statusSends (effects s) @
        map (\<lambda>ch. (ch, (currentStatus s)\<lparr>Logs := l\<rparr>)) (map snd (statusClients s))"
proof -
  have init: "status (initState :: ('ns0, 'ls0, 'ev0) state) =
      currentStatus (initState :: ('ns0, 'ls0, 'ev0) state)"
    and free: "blockedOn (initState :: ('ns0, 'ls0, 'ev0) state) = None"
    by (simp_all add: initState_def)
  have "currentStatus (run (initState :: ('ns0, 'ls0, 'ev0) state) acts0) =
        mergeLatest (currentStatus (initState :: ('ns0, 'ls0, 'ev0) state))
          (processed initState acts0)"
    by (rule run_currentStatus [OF init])
  then have zero: "currentStatus (run (initState :: ('ns0, 'ls0, 'ev0) state) acts0) =
        mergeLatest zeroLabStatus (processed initState acts0)"
    by (simp add: initState_def)
  have zero_all: "list_all receivesAll acts0 \<longrightarrow>
         currentStatus (run (initState :: ('ns0, 'ls0, 'ev0) state) acts0) =
         mergeLatest zeroLabStatus acts0"
    using zero processed_all [OF run_receivesAll [OF free], of acts0] by simp
  have gen: "currentStatus (run s acts) = mergeLatest (currentStatus s) (processed s acts)"
    using assms by (rule run_currentStatus)
  have free_end: "blockedOn (run s acts) = None \<longrightarrow>
         currentStatus (run s acts) = mergeLatest (currentStatus s) acts"
    using gen processed_all [of s acts] by simp
  have all: "blockedOn s = None \<and> list_all receivesAll acts \<longrightarrow>
         currentStatus (run s acts) = mergeLatest (currentStatus s) acts"
    using free_end run_receivesAll [of s acts] by simp
  have pub: "status (run s acts) = currentStatus (run s acts)"
    using assms by (rule run_published)
  have step: "currentStatus (loopBody rcv s (CaseTInfo (Recv t))) = (currentStatus s)\<lparr>Talos := t\<rparr>"
      "currentStatus (loopBody rcv s (CaseStats (Recv l))) = (currentStatus s)\<lparr>Logs := l\<rparr>"
    using assms by (simp_all add: loopBody_currentStatus)
  have sends: "statusSends (effects (loopBody rcv s (CaseTInfo (Recv t)))) =
        statusSends (effects s) @
        map (\<lambda>ch. (ch, (currentStatus s)\<lparr>Talos := t\<rparr>))
          (takeWhile (\<lambda>ch. ch \<in> rcv) (map snd (statusClients s)))"
       "statusSends (effects (loopBody rcv s (CaseStats (Recv l)))) =
        statusSends (effects s) @
        map (\<lambda>ch. (ch, (currentStatus s)\<lparr>Logs := l\<rparr>))
          (takeWhile (\<lambda>ch. ch \<in> rcv) (map snd (statusClients s)))"
       "statusSends (effects (loopBody UNIV s (CaseTInfo (Recv t)))) =
        statusSends (effects s) @
        map (\<lambda>ch. (ch, (currentStatus s)\<lparr>Talos := t\<rparr>)) (map snd (statusClients s))"
       "statusSends (effects (loopBody UNIV s (CaseStats (Recv l)))) =
        statusSends (effects s) @
        map (\<lambda>ch. (ch, (currentStatus s)\<lparr>Logs := l\<rparr>)) (map snd (statusClients s))"
    using assms by (simp_all add: loopBody_statusSends takeWhile_True)
  show ?thesis
    by (intro conjI gen free_end all pub zero zero_all step sends)
qed

theorem merge_latest_witness:
  "status (initState :: (string, nat, string) state) =
     currentStatus (initState :: (string, nat, string) state)
   \<and> blockedOn (initState :: (string, nat, string) state) = None
   \<and> list_all receivesAll
        [AddStatusClient ''a'' 1 :: (string, nat, string) action,
         Iterate (CaseTInfo (Recv (Some [''n1'' \<mapsto> ''Ready'']))) UNIV,
         Iterate (CaseStats (Recv 10)) UNIV,
         Iterate (CaseEvents (Recv ''boot'')) UNIV,
         Iterate (CaseTInfo RecvClosed) UNIV]
   \<and> currentStatus (run (initState :: (string, nat, string) state)
        [AddStatusClient ''a'' 1,
         Iterate (CaseTInfo (Recv (Some [''n1'' \<mapsto> ''Ready'']))) UNIV,
         Iterate (CaseStats (Recv 10)) UNIV,
         Iterate (CaseEvents (Recv ''boot'')) UNIV,
         Iterate (CaseTInfo RecvClosed) UNIV]) =
       \<lparr>Talos = Some [''n1'' \<mapsto> ''Ready''], Logs = 10\<rparr>"
proof -
  define acts :: "(string, nat, string) action list" where "acts =
        [AddStatusClient ''a'' 1,
         Iterate (CaseTInfo (Recv (Some [''n1'' \<mapsto> ''Ready'']))) UNIV,
         Iterate (CaseStats (Recv 10)) UNIV,
         Iterate (CaseEvents (Recv ''boot'')) UNIV,
         Iterate (CaseTInfo RecvClosed) UNIV]"
  have h: "status (initState :: (string, nat, string) state) =
      currentStatus (initState :: (string, nat, string) state)"
    and free: "blockedOn (initState :: (string, nat, string) state) = None"
    by (simp_all add: initState_def)
  have every: "list_all receivesAll acts"
    by (simp add: acts_def)
  have "blockedOn (initState :: (string, nat, string) state) = None \<and> list_all receivesAll acts \<longrightarrow>
      currentStatus (run (initState :: (string, nat, string) state) acts) =
      mergeLatest (currentStatus (initState :: (string, nat, string) state)) acts"
    using merge_latest [OF h, where acts = acts] by blast
  then have "currentStatus (run (initState :: (string, nat, string) state) acts) =
      \<lparr>Talos = Some [''n1'' \<mapsto> ''Ready''], Logs = 10\<rparr>"
    using free every
    by (simp add: acts_def initState_def mergeLatest_def List.map_filter_simps zeroLabStatus_def)
  then show ?thesis
    using h free every unfolding acts_def by blast
qed

section \<open>A producer channel closes\<close>

lemma dropErrorLogs_fields [simp]:
  "currentStatus (dropErrorLogs s) = currentStatus s"
  "statusClients (dropErrorLogs s) = statusClients s"
  "eventClients (dropErrorLogs s) = eventClients s"
  "status (dropErrorLogs s) = status s"
  "blockedOn (dropErrorLogs s) = blockedOn s"
  "effects (dropErrorLogs s) = filter (\<lambda>e. \<not> isErrorLog e) (effects s)"
  by (simp_all add: dropErrorLogs_def)

lemma dropErrorLogs_loopBody:
  "dropErrorLogs (loopBody rcv (dropErrorLogs s) sel) = dropErrorLogs (loopBody rcv s sel)"
  by (cases "(rcv, s, sel)" rule: selectBody.cases)
     (simp_all add: loopBody_def broadcastStatus_def dropErrorLogs_def emit_def case_prod_beta)

lemma dropErrorLogs_perform:
  "dropErrorLogs (perform (dropErrorLogs s) a) = dropErrorLogs (perform s a)"
  by (cases a)
     (simp_all add: dropErrorLogs_loopBody,
      simp_all add: addStatusClient_def removeStatusClient_def addEventClient_def
        removeEventClient_def dropErrorLogs_def emit_def)

text \<open>Two states that differ only in error records stay so along every run.\<close>

lemma dropErrorLogs_run:
  "dropErrorLogs s = dropErrorLogs s' \<Longrightarrow> dropErrorLogs (run s acts) = dropErrorLogs (run s' acts)"
proof (induction acts arbitrary: s s')
  case Nil
  then show ?case by simp
next
  case (Cons a acts)
  have "dropErrorLogs (perform s a) = dropErrorLogs (perform (dropErrorLogs s) a)"
    by (simp add: dropErrorLogs_perform)
  also have "\<dots> = dropErrorLogs (perform (dropErrorLogs s') a)"
    using Cons.prems by simp
  also have "\<dots> = dropErrorLogs (perform s' a)"
    by (simp add: dropErrorLogs_perform)
  finally have "dropErrorLogs (run (perform s a) acts) = dropErrorLogs (run (perform s' a) acts)"
    by (rule Cons.IH)
  then show ?case by simp
qed

lemma statusSends_dropErrorLogs:
  "statusSends (filter (\<lambda>e. \<not> isErrorLog e) es) = statusSends es"
proof (induction es)
  case Nil
  then show ?case by simp
next
  case (Cons x es)
  then show ?case by (cases x) (simp_all add: statusSends_def)
qed

lemma eventSends_dropErrorLogs:
  "eventSends (filter (\<lambda>e. \<not> isErrorLog e) es) = eventSends es"
proof (induction es)
  case Nil
  then show ?case by simp
next
  case (Cons x es)
  then show ?case by (cases x) (simp_all add: eventSends_def)
qed

text \<open>What two states that differ only in error records have in common.\<close>

lemma dropErrorLogs_eqD:
  assumes "dropErrorLogs s = dropErrorLogs s'"
  shows "status s = status s'" and "currentStatus s = currentStatus s'"
    and "statusClients s = statusClients s'" and "eventClients s = eventClients s'"
    and "blockedOn s = blockedOn s'"
    and "statusSends (effects s) = statusSends (effects s')"
    and "eventSends (effects s) = eventSends (effects s')"
proof -
  show "status s = status s'"
    using arg_cong [OF assms, of status] by simp
  show "currentStatus s = currentStatus s'"
    using arg_cong [OF assms, of currentStatus] by simp
  show "statusClients s = statusClients s'"
    using arg_cong [OF assms, of statusClients] by simp
  show "eventClients s = eventClients s'"
    using arg_cong [OF assms, of eventClients] by simp
  show "blockedOn s = blockedOn s'"
    using arg_cong [OF assms, of blockedOn] by simp
  have "filter (\<lambda>e. \<not> isErrorLog e) (effects s) = filter (\<lambda>e. \<not> isErrorLog e) (effects s')"
    using arg_cong [OF assms, of effects] by simp
  then show "statusSends (effects s) = statusSends (effects s')"
    and "eventSends (effects s) = eventSends (effects s')"
    by (metis statusSends_dropErrorLogs, metis eventSends_dropErrorLogs)
qed

lemma enabled_error: "enabled (handlerLevel logLevel) LevelError"
  by (simp add: enabled_def handlerLevel_def)

lemma closure_body:
  "loopBody rcv s (CaseTInfo RecvClosed) =
     s\<lparr>effects := effects s @ [LogCall LevelError ''error encountered reading talos states'' []]\<rparr>"
  "loopBody rcv s (CaseStats RecvClosed) =
     s\<lparr>effects := effects s @ [LogCall LevelError ''error encountered reading log stats'' []]\<rparr>"
  "loopBody rcv s (CaseEvents RecvClosed) =
     s\<lparr>effects := effects s @ [LogCall LevelError ''error encountered reading '' []]\<rparr>"
  by (simp_all add: loopBody_def emit_def)

lemma closure_dropErrorLogs:
  "c \<in> {CaseTInfo RecvClosed, CaseStats RecvClosed, CaseEvents RecvClosed} \<Longrightarrow>
   dropErrorLogs (perform s (Iterate c rcv)) = dropErrorLogs s"
  by (auto simp: closure_body dropErrorLogs_def)

text \<open>
  C2. When the \<^verbatim>\<open>select\<close> receives the closure of the node-health, the log-stats or the
  log-events channel, the iteration does one thing: it gives the logger one record at
  level \<^verbatim>\<open>Error\<close>, which the logger's handler writes under every \<^verbatim>\<open>--log-level\<close>. The
  published snapshot, the loop's \<^verbatim>\<open>status\<close>, both registries and the send the loop may
  be waiting in are unchanged, so the field of the closed producer keeps its last value.
  The loop goes on: the run with the closure and the run without it agree on every
  variable and on every snapshot and event sent, and differ only in error records. At
  any later point at which the loop is not waiting in a send, a node-health or log-stats
  update is merged into the snapshot, published, and sent to the status channels whose
  handlers receive, and a log event is sent to the event channels whose handlers
  receive, exactly as without the closure.
\<close>

theorem closure_logged_and_loop_continues:
  fixes s :: "('ns, 'ls, 'ev) state" and before after c rcv
  defines "R \<equiv> run s (before @ Iterate c rcv # after)"
    and "R0 \<equiv> run s (before @ after)"
  assumes "c \<in> {CaseTInfo RecvClosed, CaseStats RecvClosed, CaseEvents RecvClosed}"
  shows "loopBody rcv s (CaseTInfo RecvClosed) =
       s\<lparr>effects := effects s @
             [LogCall LevelError ''error encountered reading talos states'' []]\<rparr>
    \<and> loopBody rcv s (CaseStats RecvClosed) =
       s\<lparr>effects := effects s @
             [LogCall LevelError ''error encountered reading log stats'' []]\<rparr>
    \<and> loopBody rcv s (CaseEvents RecvClosed) =
       s\<lparr>effects := effects s @ [LogCall LevelError ''error encountered reading '' []]\<rparr>
    \<and> logOutput (handlerLevel logLevel) (effects (loopBody rcv s (CaseTInfo RecvClosed))) =
       logOutput (handlerLevel logLevel) (effects s) @
       [(LevelError, ''error encountered reading talos states'')]
    \<and> logOutput (handlerLevel logLevel) (effects (loopBody rcv s (CaseStats RecvClosed))) =
       logOutput (handlerLevel logLevel) (effects s) @
       [(LevelError, ''error encountered reading log stats'')]
    \<and> logOutput (handlerLevel logLevel) (effects (loopBody rcv s (CaseEvents RecvClosed))) =
       logOutput (handlerLevel logLevel) (effects s) @
       [(LevelError, ''error encountered reading '')]
    \<and> enabled (handlerLevel logLevel) LevelError
    \<and> currentStatus (loopBody rcv s c) = currentStatus s
    \<and> status (loopBody rcv s c) = status s
    \<and> statusClients (loopBody rcv s c) = statusClients s
    \<and> eventClients (loopBody rcv s c) = eventClients s
    \<and> blockedOn (loopBody rcv s c) = blockedOn s
    \<and> dropErrorLogs R = dropErrorLogs R0
    \<and> status R = status R0
    \<and> currentStatus R = currentStatus R0
    \<and> statusClients R = statusClients R0
    \<and> eventClients R = eventClients R0
    \<and> blockedOn R = blockedOn R0
    \<and> statusSends (effects R) = statusSends (effects R0)
    \<and> eventSends (effects R) = eventSends (effects R0)
    \<and> (blockedOn R = None \<longrightarrow>
         R = run (loopBody rcv (run s before) c) after
       \<and> currentStatus (perform R (Iterate (CaseTInfo (Recv t)) rcv')) = (status R0)\<lparr>Talos := t\<rparr>
       \<and> currentStatus (perform R (Iterate (CaseStats (Recv l)) rcv')) = (status R0)\<lparr>Logs := l\<rparr>
       \<and> statusSends (effects (perform R (Iterate (CaseTInfo (Recv t)) rcv'))) =
           statusSends (effects R0) @
           map (\<lambda>ch. (ch, (status R0)\<lparr>Talos := t\<rparr>))
             (takeWhile (\<lambda>ch. ch \<in> rcv') (map snd (statusClients R0)))
       \<and> statusSends (effects (perform R (Iterate (CaseStats (Recv l)) rcv'))) =
           statusSends (effects R0) @
           map (\<lambda>ch. (ch, (status R0)\<lparr>Logs := l\<rparr>))
             (takeWhile (\<lambda>ch. ch \<in> rcv') (map snd (statusClients R0)))
       \<and> eventSends (effects (perform R (Iterate (CaseEvents (Recv e)) rcv'))) =
           eventSends (effects R0) @
           map (\<lambda>ch. (ch, e)) (takeWhile (\<lambda>ch. ch \<in> rcv') (map snd (eventClients R0))))"
proof -
  note closure = assms(3)
  have body: "loopBody rcv s' c = s'\<lparr>effects := effects s' @ [LogCall LevelError
      (if c = CaseTInfo RecvClosed then ''error encountered reading talos states''
       else if c = CaseStats RecvClosed then ''error encountered reading log stats''
       else ''error encountered reading '') []]\<rparr>" for s' :: "('ns, 'ls, 'ev) state"
    using closure by (auto simp: closure_body)
  have logs: "logOutput (handlerLevel logLevel) (effects (loopBody rcv s (CaseTInfo RecvClosed))) =
       logOutput (handlerLevel logLevel) (effects s) @
       [(LevelError, ''error encountered reading talos states'')]"
      "logOutput (handlerLevel logLevel) (effects (loopBody rcv s (CaseStats RecvClosed))) =
       logOutput (handlerLevel logLevel) (effects s) @
       [(LevelError, ''error encountered reading log stats'')]"
      "logOutput (handlerLevel logLevel) (effects (loopBody rcv s (CaseEvents RecvClosed))) =
       logOutput (handlerLevel logLevel) (effects s) @
       [(LevelError, ''error encountered reading '')]"
    by (simp_all add: closure_body enabled_error) (simp_all add: logOutput_def enabled_error)
  have frame: "currentStatus (loopBody rcv s c) = currentStatus s"
      "status (loopBody rcv s c) = status s"
      "statusClients (loopBody rcv s c) = statusClients s"
      "eventClients (loopBody rcv s c) = eventClients s"
      "blockedOn (loopBody rcv s c) = blockedOn s"
    by (simp_all add: body)
  have "dropErrorLogs (perform (run s before) (Iterate c rcv)) = dropErrorLogs (run s before)"
    using closure by (rule closure_dropErrorLogs)
  then have "dropErrorLogs (run (perform (run s before) (Iterate c rcv)) after) =
             dropErrorLogs (run (run s before) after)"
    by (rule dropErrorLogs_run)
  then have same: "dropErrorLogs R = dropErrorLogs R0"
    by (simp add: R_def R0_def run_append)
  note agree = dropErrorLogs_eqD [OF same]
  have later: "R = run (loopBody rcv (run s before) c) after
       \<and> currentStatus (perform R (Iterate (CaseTInfo (Recv t)) rcv')) = (status R0)\<lparr>Talos := t\<rparr>
       \<and> currentStatus (perform R (Iterate (CaseStats (Recv l)) rcv')) = (status R0)\<lparr>Logs := l\<rparr>
       \<and> statusSends (effects (perform R (Iterate (CaseTInfo (Recv t)) rcv'))) =
           statusSends (effects R0) @
           map (\<lambda>ch. (ch, (status R0)\<lparr>Talos := t\<rparr>))
             (takeWhile (\<lambda>ch. ch \<in> rcv') (map snd (statusClients R0)))
       \<and> statusSends (effects (perform R (Iterate (CaseStats (Recv l)) rcv'))) =
           statusSends (effects R0) @
           map (\<lambda>ch. (ch, (status R0)\<lparr>Logs := l\<rparr>))
             (takeWhile (\<lambda>ch. ch \<in> rcv') (map snd (statusClients R0)))
       \<and> eventSends (effects (perform R (Iterate (CaseEvents (Recv e)) rcv'))) =
           eventSends (effects R0) @
           map (\<lambda>ch. (ch, e)) (takeWhile (\<lambda>ch. ch \<in> rcv') (map snd (eventClients R0)))"
    if free: "blockedOn R = None"
  proof -
    have "blockedOn (run s before) = None"
    proof (rule ccontr)
      assume "blockedOn (run s before) \<noteq> None"
      then obtain ch where "blockedOn (run s before) = Some ch" by auto
      then have "blockedOn (run (run s before) (Iterate c rcv # after)) = Some ch"
        by (rule run_blocked)
      then show False using free by (simp add: R_def run_append)
    qed
    then have split: "R = run (loopBody rcv (run s before) c) after"
      by (simp add: R_def run_append)
    show ?thesis
      using free split agree
      by (simp add: loopBody_currentStatus loopBody_statusSends loopBody_eventSends)
  qed
  show ?thesis
    by (intro conjI closure_body logs enabled_error frame same agree impI later)
qed

theorem closure_logged_and_loop_continues_witness:
  "(CaseStats RecvClosed :: (string, nat, string) selected) \<in>
      {CaseTInfo RecvClosed, CaseStats RecvClosed, CaseEvents RecvClosed}
   \<and> blockedOn (run (initState :: (string, nat, string) state)
        ([AddEventClient ''e'' 2, Iterate (CaseStats (Recv 3)) UNIV] @
         Iterate (CaseStats RecvClosed) UNIV #
         [Iterate (CaseEvents (Recv ''boot'')) UNIV])) = None
   \<and> currentStatus (perform (run (initState :: (string, nat, string) state)
        ([AddEventClient ''e'' 2, Iterate (CaseStats (Recv 3)) UNIV] @
         Iterate (CaseStats RecvClosed) UNIV #
         [Iterate (CaseEvents (Recv ''boot'')) UNIV]))
        (Iterate (CaseTInfo (Recv (Some Map.empty))) UNIV)) =
       \<lparr>Talos = Some Map.empty, Logs = 3\<rparr>
   \<and> eventSends (effects (perform (run (initState :: (string, nat, string) state)
        ([AddEventClient ''e'' 2, Iterate (CaseStats (Recv 3)) UNIV] @
         Iterate (CaseStats RecvClosed) UNIV #
         [Iterate (CaseEvents (Recv ''boot'')) UNIV]))
        (Iterate (CaseEvents (Recv ''warm'')) UNIV))) =
       [(2, ''boot''), (2, ''warm'')]"
proof -
  define s0 :: "(string, nat, string) state" where "s0 = initState"
  define before :: "(string, nat, string) action list" where
    "before = [AddEventClient ''e'' 2, Iterate (CaseStats (Recv 3)) UNIV]"
  define after :: "(string, nat, string) action list" where
    "after = [Iterate (CaseEvents (Recv ''boot'')) UNIV]"
  define R where "R = run s0 (before @ Iterate (CaseStats RecvClosed) UNIV # after)"
  define R0 where "R0 = run s0 (before @ after)"
  have h: "(CaseStats RecvClosed :: (string, nat, string) selected) \<in>
      {CaseTInfo RecvClosed, CaseStats RecvClosed, CaseEvents RecvClosed}"
    by simp
  have r0: "status R0 = \<lparr>Talos = None, Logs = 3\<rparr>" "eventClients R0 = [(''e'', 2)]"
      "eventSends (effects R0) = [(2, ''boot'')]" "blockedOn R0 = None"
    by (simp_all add: R0_def s0_def before_def after_def initState_def zeroLabStatus_def
        addEventClient_def loopBody_def broadcastStatus_def emit_def eventSends_def)
  note inst = closure_logged_and_loop_continues [OF h, where s = s0 and before = before
      and after = after and rcv = UNIV and rcv' = UNIV and t = "Some Map.empty"
      and e = "''warm''", folded R_def R0_def]
  have "blockedOn R = blockedOn R0"
    using inst by blast
  then have free: "blockedOn R = None"
    using r0 by simp
  have later: "currentStatus (perform R (Iterate (CaseTInfo (Recv (Some Map.empty))) UNIV)) =
          (status R0)\<lparr>Talos := Some Map.empty\<rparr>
      \<and> eventSends (effects (perform R (Iterate (CaseEvents (Recv ''warm'')) UNIV))) =
          eventSends (effects R0) @
          map (\<lambda>ch. (ch, ''warm'')) (takeWhile (\<lambda>ch. ch \<in> UNIV) (map snd (eventClients R0)))"
    using inst free by blast
  have "currentStatus (perform R (Iterate (CaseTInfo (Recv (Some Map.empty))) UNIV)) =
          \<lparr>Talos = Some Map.empty, Logs = 3\<rparr>
      \<and> eventSends (effects (perform R (Iterate (CaseEvents (Recv ''warm'')) UNIV))) =
          [(2, ''boot''), (2, ''warm'')]"
    by (simp only: later r0) simp
  then show ?thesis
    using h free unfolding R_def s0_def before_def after_def by blast
qed

section \<open>The wait step of the watch loop\<close>

lemma nth_mod_mem: "xs \<noteq> [] \<Longrightarrow> xs ! (p mod length xs) \<in> set xs"
  by simp

text \<open>What a case of the \<^verbatim>\<open>select\<close> says of the channel it receives from.\<close>

lemma selectCase_cases:
  fixes tInfo :: "'ns nodeHealth offer" and stats :: "'ls offer" and events :: "'ev offer"
  shows "(case selectCase pick tInfo stats events of
        CaseTInfo (Recv t) \<Rightarrow> tInfo = Offer t
      | CaseTInfo RecvClosed \<Rightarrow> tInfo = Closed
      | CaseStats (Recv l) \<Rightarrow> stats = Offer l
      | CaseStats RecvClosed \<Rightarrow> stats = Closed
      | CaseEvents (Recv e) \<Rightarrow> events = Offer e
      | CaseEvents RecvClosed \<Rightarrow> events = Closed
      | CaseDefault \<Rightarrow> tInfo = NotReady \<and> stats = NotReady \<and> events = NotReady)"
proof -
  define good :: "('ns, 'ls, 'ev) selected \<Rightarrow> bool" where "good sel =
     (case sel of
        CaseTInfo (Recv t) \<Rightarrow> tInfo = Offer t
      | CaseTInfo RecvClosed \<Rightarrow> tInfo = Closed
      | CaseStats (Recv l) \<Rightarrow> stats = Offer l
      | CaseStats RecvClosed \<Rightarrow> stats = Closed
      | CaseEvents (Recv e) \<Rightarrow> events = Offer e
      | CaseEvents RecvClosed \<Rightarrow> events = Closed
      | CaseDefault \<Rightarrow> tInfo = NotReady \<and> stats = NotReady \<and> events = NotReady)" for sel
  define cands :: "('ns, 'ls, 'ev) selected list" where "cands =
        (case ready tInfo of None \<Rightarrow> [] | Some r \<Rightarrow> [CaseTInfo r]) @
        (case ready stats of None \<Rightarrow> [] | Some r \<Rightarrow> [CaseStats r]) @
        (case ready events of None \<Rightarrow> [] | Some r \<Rightarrow> [CaseEvents r])"
  have sel: "selectCase pick tInfo stats events =
       (if cands = [] then CaseDefault else cands ! (pick mod length cands))"
    by (simp add: selectCase_def cands_def Let_def)
  have good_simps: "good (CaseTInfo (Recv t)) = (tInfo = Offer t)"
      "good (CaseTInfo RecvClosed) = (tInfo = Closed)"
      "good (CaseStats (Recv l)) = (stats = Offer l)"
      "good (CaseStats RecvClosed) = (stats = Closed)"
      "good (CaseEvents (Recv e)) = (events = Offer e)"
      "good (CaseEvents RecvClosed) = (events = Closed)" for t l e
    by (simp_all add: good_def)
  have g1: "good x" if "x \<in> set (case ready tInfo of None \<Rightarrow> [] | Some r \<Rightarrow> [CaseTInfo r])" for x
    using that by (cases tInfo) (simp_all add: good_simps)
  have g2: "good x" if "x \<in> set (case ready stats of None \<Rightarrow> [] | Some r \<Rightarrow> [CaseStats r])" for x
    using that by (cases stats) (simp_all add: good_simps)
  have g3: "good x" if "x \<in> set (case ready events of None \<Rightarrow> [] | Some r \<Rightarrow> [CaseEvents r])" for x
    using that by (cases events) (simp_all add: good_simps)
  have all_good: "good x" if "x \<in> set cands" for x
    using that g1 g2 g3 unfolding cands_def set_append Un_iff by blast
  have empty: "(cands = []) = (tInfo = NotReady \<and> stats = NotReady \<and> events = NotReady)"
    by (cases tInfo; cases stats; cases events) (simp_all add: cands_def)
  have "good (selectCase pick tInfo stats events)"
  proof (cases "cands = []")
    case True
    then show ?thesis using sel empty by (simp add: good_def)
  next
    case False
    then have "cands ! (pick mod length cands) \<in> set cands"
      by (rule nth_mod_mem)
    then show ?thesis using sel False all_good by simp
  qed
  then show ?thesis by (simp add: good_def)
qed

lemma selectCase_default:
  "(selectCase pick tInfo stats events = CaseDefault) =
     (tInfo = NotReady \<and> stats = NotReady \<and> events = NotReady)"
proof
  assume "selectCase pick tInfo stats events = CaseDefault"
  then show "tInfo = NotReady \<and> stats = NotReady \<and> events = NotReady"
    using selectCase_cases [where pick = pick and tInfo = tInfo and stats = stats and events = events]
    by simp
next
  assume "tInfo = NotReady \<and> stats = NotReady \<and> events = NotReady"
  then show "selectCase pick tInfo stats events = CaseDefault"
    by (simp add: selectCase_def)
qed

text \<open>Every ready channel can be the one the \<^verbatim>\<open>select\<close> receives from.\<close>

lemma selectCase_tInfo:
  "selectCase 0 (Offer t) stats events = CaseTInfo (Recv t)"
  "selectCase 0 Closed stats events = CaseTInfo RecvClosed"
  by (simp_all add: selectCase_def)

lemma selectCase_stats:
  "selectCase (if tInfo = NotReady then 0 else 1) tInfo (Offer l) events = CaseStats (Recv l)"
  "selectCase (if tInfo = NotReady then 0 else 1) tInfo Closed events = CaseStats RecvClosed"
  by (cases tInfo; cases events; simp add: selectCase_def)+

lemma selectCase_events:
  "selectCase ((if tInfo = NotReady then 0 else 1) + (if stats = NotReady then 0 else 1))
     tInfo stats (Offer e) = CaseEvents (Recv e)"
  "selectCase ((if tInfo = NotReady then 0 else 1) + (if stats = NotReady then 0 else 1))
     tInfo stats Closed = CaseEvents RecvClosed"
  by (cases tInfo; cases stats; simp add: selectCase_def)+

text \<open>
  C3 as stated fails. With none of the three producer channels ready, the \<^verbatim>\<open>select\<close> does
  not block: it runs its \<^verbatim>\<open>default\<close> case, and the iteration is a sleep of 100
  milliseconds.
\<close>

theorem wait_step_blocks_counterexample:
  "selectCase 0 (NotReady :: nat nodeHealth offer) (NotReady :: nat offer) (NotReady :: nat offer)
     = CaseDefault
   \<and> effects (loopBody UNIV (initState :: (nat, nat, nat) state)
        (selectCase 0 NotReady NotReady NotReady)) = [Sleep 100]"
  by (simp add: selectCase_def loopBody_def initState_def emit_def)

text \<open>
  C3, amended. The wait step of an iteration never blocks. It takes the \<^verbatim>\<open>default\<close> case
  exactly when none of the three producer channels is ready; that iteration sleeps for
  the fixed 100 milliseconds and changes nothing else, and an iteration sleeps in no
  other case. When a channel is ready, the case that runs is a receive from a ready
  channel: it has the value that channel offers, or reports the closure of that channel
  when it is closed. Every ready channel can be the one chosen.
\<close>

theorem wait_step_polls:
  "(selectCase pick tInfo stats events = CaseDefault) =
     (tInfo = NotReady \<and> stats = NotReady \<and> events = NotReady)
   \<and> (case selectCase pick tInfo stats events of
        CaseTInfo (Recv t) \<Rightarrow> tInfo = Offer t
      | CaseTInfo RecvClosed \<Rightarrow> tInfo = Closed
      | CaseStats (Recv l) \<Rightarrow> stats = Offer l
      | CaseStats RecvClosed \<Rightarrow> stats = Closed
      | CaseEvents (Recv e) \<Rightarrow> events = Offer e
      | CaseEvents RecvClosed \<Rightarrow> events = Closed
      | CaseDefault \<Rightarrow> tInfo = NotReady \<and> stats = NotReady \<and> events = NotReady)
   \<and> (\<exists>p. selectCase p (Offer t') stats events = CaseTInfo (Recv t'))
   \<and> (\<exists>p. selectCase p Closed stats events = CaseTInfo RecvClosed)
   \<and> (\<exists>p. selectCase p tInfo (Offer l') events = CaseStats (Recv l'))
   \<and> (\<exists>p. selectCase p tInfo Closed events = CaseStats RecvClosed)
   \<and> (\<exists>p. selectCase p tInfo stats (Offer e') = CaseEvents (Recv e'))
   \<and> (\<exists>p. selectCase p tInfo stats Closed = CaseEvents RecvClosed)
   \<and> loopBody rcv s CaseDefault = s\<lparr>effects := effects s @ [Sleep 100]\<rparr>
   \<and> (Sleep n \<in> set (effects (loopBody rcv s sel))) =
       (Sleep n \<in> set (effects s) \<or> (sel = CaseDefault \<and> n = 100))"
proof -
  have sleep: "loopBody rcv s CaseDefault = s\<lparr>effects := effects s @ [Sleep 100]\<rparr>"
    by (simp add: loopBody_def emit_def)
  have ex: "\<exists>p. selectCase p (Offer t') stats events = CaseTInfo (Recv t')"
      "\<exists>p. selectCase p Closed stats events = CaseTInfo RecvClosed"
      "\<exists>p. selectCase p tInfo (Offer l') events = CaseStats (Recv l')"
      "\<exists>p. selectCase p tInfo Closed events = CaseStats RecvClosed"
      "\<exists>p. selectCase p tInfo stats (Offer e') = CaseEvents (Recv e')"
      "\<exists>p. selectCase p tInfo stats Closed = CaseEvents RecvClosed"
    by (rule exI [where x = 0], rule selectCase_tInfo(1),
        rule exI [where x = 0], rule selectCase_tInfo(2),
        rule exI [where x = "if tInfo = NotReady then 0 else 1"], rule selectCase_stats(1),
        rule exI [where x = "if tInfo = NotReady then 0 else 1"], rule selectCase_stats(2),
        rule exI [where x = "(if tInfo = NotReady then 0 else 1) +
          (if stats = NotReady then 0 else 1)"], rule selectCase_events(1),
        rule exI [where x = "(if tInfo = NotReady then 0 else 1) +
          (if stats = NotReady then 0 else 1)"], rule selectCase_events(2))
  show ?thesis
    by (intro conjI selectCase_default selectCase_cases sleep loopBody_sleeps ex)
qed

section \<open>The lock\<close>

text \<open>
  C4. The four registry functions follow the lock discipline: what each of them does to
  its map, it does between \<^verbatim>\<open>lock.Lock()\<close> and \<^verbatim>\<open>lock.Unlock()\<close>. The watch loop does not:
  the effects of an iteration that forwards a log event, and of one that publishes a
  node-health or a log-stats update, read the length of a registry map and range over
  it without taking the lock, and no copy of the map is made.
\<close>

theorem broadcast_outside_lock:
  "lockDiscipline False (drop (length (effects s)) (effects (addStatusClient uid ch s)))
   \<and> lockDiscipline False (drop (length (effects s)) (effects (removeStatusClient uid s)))
   \<and> lockDiscipline False (drop (length (effects s)) (effects (addEventClient uid ch s)))
   \<and> lockDiscipline False (drop (length (effects s)) (effects (removeEventClient uid s)))
   \<and> \<not> lockDiscipline False
         (drop (length (effects s)) (effects (loopBody rcv s (CaseEvents (Recv e)))))
   \<and> \<not> lockDiscipline False
         (drop (length (effects s)) (effects (loopBody rcv s (CaseTInfo (Recv t)))))
   \<and> \<not> lockDiscipline False
         (drop (length (effects s)) (effects (loopBody rcv s (CaseStats (Recv l)))))"
  by (simp add: addStatusClient_def removeStatusClient_def addEventClient_def
      removeEventClient_def loopBody_def broadcastStatus_def case_prod_beta)

section \<open>The first message of a subscriber\<close>

text \<open>
  C5. A request to \<^verbatim>\<open>/status\<close> that asks for an upgrade and gets it is registered, and
  the first message written to its connection is the current snapshot, whatever happens
  afterwards; when no status is ever broadcast to it, that snapshot is the one message
  it is sent. A request to \<^verbatim>\<open>/events\<close> is registered too, but its connection is written
  only the events that arrive on its channel: with no event, nothing.
\<close>

theorem status_subscriber_initial_snapshot:
  assumes "upgradeHeader req \<noteq> []" and "upgradeOk req"
  shows "(\<exists>ws. snd (statusHandler marshal req firstWriteOk sels s) =
             TextMessage (marshal (currentStatus s)) firstWriteOk # ws)
    \<and> snd (statusHandler marshal req True [] s) = [TextMessage (marshal (currentStatus s)) True]
    \<and> map_of (statusClients (fst (statusHandler marshal req True [] s))) (newUuid req) =
        Some (newChan req)
    \<and> snd (eventHandler marshal' req sels' s') = fst (streamLoop marshal' sels')
    \<and> snd (eventHandler marshal' req [] s') = []
    \<and> map_of (eventClients (fst (eventHandler marshal' req [] s'))) (newUuid req) =
        Some (newChan req)"
  using assms
  by (auto simp: statusHandler_def eventHandler_def addStatusClient_def addEventClient_def
      update_conv' Let_def split: prod.splits)

theorem status_subscriber_initial_snapshot_witness:
  "upgradeHeader \<lparr>upgradeHeader = ''websocket'', upgradeOk = True, newUuid = ''u1'', newChan = 1\<rparr> \<noteq> []
   \<and> upgradeOk \<lparr>upgradeHeader = ''websocket'', upgradeOk = True, newUuid = ''u1'', newChan = 1\<rparr>
   \<and> snd (statusHandler (\<lambda>st. replicate (Logs st) (CHR ''x''))
        \<lparr>upgradeHeader = ''websocket'', upgradeOk = True, newUuid = ''u1'', newChan = 1\<rparr> True []
        (run (initState :: (string, nat, string) state) [Iterate (CaseStats (Recv 2)) UNIV])) =
       [TextMessage ''xx'' True]
   \<and> snd (eventHandler (\<lambda>e. e)
        \<lparr>upgradeHeader = ''websocket'', upgradeOk = True, newUuid = ''u1'', newChan = 1\<rparr> []
        (run (initState :: (string, nat, string) state) [Iterate (CaseStats (Recv 2)) UNIV])) = []"
proof -
  define req where
    "req = \<lparr>upgradeHeader = ''websocket'', upgradeOk = True, newUuid = ''u1'', newChan = 1\<rparr>"
  define s0 where
    "s0 = run (initState :: (string, nat, string) state) [Iterate (CaseStats (Recv 2)) UNIV]"
  have h1: "upgradeHeader req \<noteq> []" and h2: "upgradeOk req"
    by (simp_all add: req_def)
  have cur: "Logs (currentStatus s0) = 2"
    by (simp add: s0_def run_def loopBody_def broadcastStatus_def initState_def)
  have "snd (statusHandler (\<lambda>st. replicate (Logs st) (CHR ''x'')) req True [] s0) =
          [TextMessage ''xx'' True]
      \<and> snd (eventHandler (\<lambda>e. e) req [] s0) = []"
    using status_subscriber_initial_snapshot [OF h1 h2,
        where marshal = "\<lambda>st. replicate (Logs st) (CHR ''x'')" and s = s0
          and marshal' = "\<lambda>e. e" and s' = s0]
    by (simp add: cur numeral_2_eq_2)
  then show ?thesis
    using h1 h2 unfolding req_def s0_def by blast
qed

section \<open>A log event\<close>




section \<open>Register and Unregister\<close>

text \<open>
  C7 as stated fails. When the id is already registered, \<^verbatim>\<open>addStatusClient\<close> replaces its
  channel and \<^verbatim>\<open>removeStatusClient\<close> then removes the entry: the registry that had one
  subscriber has none.
\<close>

theorem register_unregister_count_counterexample:
  "length (statusClients (removeStatusClient ''a'' (addStatusClient ''a'' 2
      (addStatusClient ''a'' 1 (initState :: (nat, nat, nat) state))))) = 0
   \<and> length (statusClients (addStatusClient ''a'' 1 (initState :: (nat, nat, nat) state))) = 1"
  by (simp add: addStatusClient_def removeStatusClient_def initState_def)

text \<open>
  C7, amended. For every registry state, every id that is not registered in it and every
  channel, registering the id and then unregistering it gives back the registry as it
  was, so its subscriber count is the count before the registration. This holds for the
  status registry and for the event registry.
\<close>

theorem register_unregister_fresh:
  assumes "uid \<notin> fst ` set (statusClients s)" and "uid' \<notin> fst ` set (eventClients s)"
  shows "statusClients (removeStatusClient uid (addStatusClient uid ch s)) = statusClients s
    \<and> length (statusClients (removeStatusClient uid (addStatusClient uid ch s))) =
        length (statusClients s)
    \<and> eventClients (removeEventClient uid' (addEventClient uid' ch' s)) = eventClients s
    \<and> length (eventClients (removeEventClient uid' (addEventClient uid' ch' s))) =
        length (eventClients s)"
  using assms
  by (simp add: addStatusClient_def removeStatusClient_def addEventClient_def
      removeEventClient_def delete_update_fresh)

theorem register_unregister_fresh_witness:
  "''b'' \<notin> fst ` set (statusClients (addStatusClient ''a'' 1 (initState :: (nat, nat, nat) state)))
   \<and> ''c'' \<notin> fst ` set (eventClients (addStatusClient ''a'' 1 (initState :: (nat, nat, nat) state)))
   \<and> length (statusClients (removeStatusClient ''b'' (addStatusClient ''b'' 2
        (addStatusClient ''a'' 1 (initState :: (nat, nat, nat) state))))) = 1
   \<and> length (eventClients (removeEventClient ''c'' (addEventClient ''c'' 3
        (addStatusClient ''a'' 1 (initState :: (nat, nat, nat) state))))) = 0"
proof -
  have h1: "''b'' \<notin> fst ` set (statusClients (addStatusClient ''a'' 1 (initState :: (nat, nat, nat) state)))"
    by (simp add: addStatusClient_def initState_def)
  have h2: "''c'' \<notin> fst ` set (eventClients (addStatusClient ''a'' 1 (initState :: (nat, nat, nat) state)))"
    by (simp add: addStatusClient_def initState_def)
  have len: "length (statusClients (addStatusClient ''a'' 1 (initState :: (nat, nat, nat) state))) = 1"
      "length (eventClients (addStatusClient ''a'' 1 (initState :: (nat, nat, nat) state))) = 0"
    by (simp_all add: addStatusClient_def initState_def)
  show ?thesis
    using h1 h2 len register_unregister_fresh [OF h1 h2, of 2 3]
    by simp
qed

text \<open>
  C8. Registering an id that is already in a registry (whose ids are distinct) replaces
  the channel of that id and nothing else: the id now maps to the new channel, every
  other id to the channel it had, the ids of the registry and their number are the same,
  and they are still distinct. The call logs nothing, and the function has no error
  result.
\<close>

theorem register_overwrites:
  assumes "uid \<in> fst ` set (statusClients s)" and "distinct (map fst (statusClients s))"
    and "uid' \<in> fst ` set (eventClients s)" and "distinct (map fst (eventClients s))"
  shows "map_of (statusClients (addStatusClient uid ch s)) = (map_of (statusClients s))(uid \<mapsto> ch)
    \<and> map fst (statusClients (addStatusClient uid ch s)) = map fst (statusClients s)
    \<and> distinct (map fst (statusClients (addStatusClient uid ch s)))
    \<and> length (statusClients (addStatusClient uid ch s)) = length (statusClients s)
    \<and> effects (addStatusClient uid ch s) = effects s @ [Lock, Access StatusReg MapAssign, Unlock]
    \<and> map_of (eventClients (addEventClient uid' ch' s)) = (map_of (eventClients s))(uid' \<mapsto> ch')
    \<and> map fst (eventClients (addEventClient uid' ch' s)) = map fst (eventClients s)
    \<and> distinct (map fst (eventClients (addEventClient uid' ch' s)))
    \<and> length (eventClients (addEventClient uid' ch' s)) = length (eventClients s)
    \<and> effects (addEventClient uid' ch' s) = effects s @ [Lock, Access EventReg MapAssign, Unlock]"
  using assms
  by (simp add: addStatusClient_def addEventClient_def update_conv' update_keys_present
      update_length_present distinct_update)

theorem register_overwrites_witness:
  "''a'' \<in> fst ` set (statusClients (addEventClient ''e'' 5 (addStatusClient ''a'' 1 (initState :: (nat, nat, nat) state))))
   \<and> distinct (map fst (statusClients (addEventClient ''e'' 5 (addStatusClient ''a'' 1 (initState :: (nat, nat, nat) state)))))
   \<and> ''e'' \<in> fst ` set (eventClients (addEventClient ''e'' 5 (addStatusClient ''a'' 1 (initState :: (nat, nat, nat) state))))
   \<and> distinct (map fst (eventClients (addEventClient ''e'' 5 (addStatusClient ''a'' 1 (initState :: (nat, nat, nat) state)))))
   \<and> map_of (statusClients (addStatusClient ''a'' 2
        (addEventClient ''e'' 5 (addStatusClient ''a'' 1 (initState :: (nat, nat, nat) state))))) ''a'' = Some 2
   \<and> length (statusClients (addStatusClient ''a'' 2
        (addEventClient ''e'' 5 (addStatusClient ''a'' 1 (initState :: (nat, nat, nat) state))))) = 1"
proof -
  define s0 where "s0 = addEventClient ''e'' 5 (addStatusClient ''a'' 1 (initState :: (nat, nat, nat) state))"
  have regs: "statusClients s0 = [(''a'', 1)]" "eventClients s0 = [(''e'', 5)]"
    by (simp_all add: s0_def addStatusClient_def addEventClient_def initState_def)
  have h1: "''a'' \<in> fst ` set (statusClients s0)" and h2: "distinct (map fst (statusClients s0))"
    and h3: "''e'' \<in> fst ` set (eventClients s0)" and h4: "distinct (map fst (eventClients s0))"
    by (simp_all add: regs)
  have "map_of (statusClients (addStatusClient ''a'' 2 s0)) ''a'' = Some 2
      \<and> length (statusClients (addStatusClient ''a'' 2 s0)) = 1"
    using register_overwrites [OF h1 h2 h3 h4, of 2 6] by (simp add: regs)
  then show ?thesis
    using h1 h2 h3 h4 unfolding s0_def by blast
qed

text \<open>
  C9. Unregistering an id that is not in a registry changes no variable of the program:
  the call takes the lock, deletes nothing and releases the lock, and the registry is the
  one it was. Unregistering the same id twice leaves the registry that unregistering it
  once leaves. The function has no error result.
\<close>

theorem unregister_absent_noop:
  assumes "uid \<notin> fst ` set (statusClients s)" and "uid' \<notin> fst ` set (eventClients s)"
  shows "removeStatusClient uid s = emit [Lock, Access StatusReg MapDelete, Unlock] s
    \<and> statusClients (removeStatusClient uid s) = statusClients s
    \<and> removeEventClient uid' s = emit [Lock, Access EventReg MapDelete, Unlock] s
    \<and> eventClients (removeEventClient uid' s) = eventClients s
    \<and> statusClients (removeStatusClient k (removeStatusClient k s)) =
        statusClients (removeStatusClient k s)
    \<and> eventClients (removeEventClient k (removeEventClient k s)) =
        eventClients (removeEventClient k s)"
  using assms
  by (simp add: removeStatusClient_def removeEventClient_def delete_idem emit_def)

theorem unregister_absent_noop_witness:
  "''b'' \<notin> fst ` set (statusClients (addStatusClient ''a'' 1 (initState :: (nat, nat, nat) state)))
   \<and> ''b'' \<notin> fst ` set (eventClients (addStatusClient ''a'' 1 (initState :: (nat, nat, nat) state)))
   \<and> statusClients (removeStatusClient ''b'' (addStatusClient ''a'' 1 (initState :: (nat, nat, nat) state))) = [(''a'', 1)]
   \<and> statusClients (removeStatusClient ''a'' (removeStatusClient ''a''
        (addStatusClient ''a'' 1 (initState :: (nat, nat, nat) state)))) = []"
proof -
  define s0 where "s0 = addStatusClient ''a'' 1 (initState :: (nat, nat, nat) state)"
  have regs: "statusClients s0 = [(''a'', 1)]" "eventClients s0 = []"
    by (simp_all add: s0_def addStatusClient_def initState_def)
  have h1: "''b'' \<notin> fst ` set (statusClients s0)" and h2: "''b'' \<notin> fst ` set (eventClients s0)"
    by (simp_all add: regs)
  have once: "statusClients (removeStatusClient ''a'' s0) = []"
    by (simp add: removeStatusClient_def regs)
  have "statusClients (removeStatusClient ''b'' s0) = [(''a'', 1)]
      \<and> statusClients (removeStatusClient ''a'' (removeStatusClient ''a'' s0)) = []"
    using unregister_absent_noop [OF h1 h2, of "''a''"] by (simp add: regs once)
  then show ?thesis
    using h1 h2 unfolding s0_def by blast
qed

text \<open>
  C10. The two registries are separate variables: registering or unregistering a status
  subscriber leaves the event registry as it was, and registering or unregistering an
  event subscriber leaves the status registry as it was.
\<close>

theorem registries_independent:
  "eventClients (addStatusClient uid ch s) = eventClients s
   \<and> eventClients (removeStatusClient uid s) = eventClients s
   \<and> statusClients (addEventClient uid ch s) = statusClients s
   \<and> statusClients (removeEventClient uid s) = statusClients s"
  by (simp add: addStatusClient_def removeStatusClient_def addEventClient_def
      removeEventClient_def)

section \<open>The scenario of the specification\<close>

text \<open>
  A status subscriber and an event subscriber are registered and their handlers
  receive; the watchers then deliver the node health \<open>n1 \<mapsto> Ready\<close>, the log statistics
  \<open>10\<close> and the log event \<open>boot\<close>. The loop sends the status subscriber the snapshot with
  the health alone and then the snapshot with both, and the event subscriber the one
  event.
\<close>

lemma scenario:
  "statusSends (effects (run (initState :: (string, nat, string) state)
      [AddStatusClient ''s'' 1, AddEventClient ''e'' 2,
       Iterate (CaseTInfo (Recv (Some [''n1'' \<mapsto> ''Ready'']))) UNIV,
       Iterate (CaseStats (Recv 10)) UNIV,
       Iterate (CaseEvents (Recv ''boot'')) UNIV])) =
     [(1, \<lparr>Talos = Some [''n1'' \<mapsto> ''Ready''], Logs = 0\<rparr>),
      (1, \<lparr>Talos = Some [''n1'' \<mapsto> ''Ready''], Logs = 10\<rparr>)]
   \<and> eventSends (effects (run (initState :: (string, nat, string) state)
      [AddStatusClient ''s'' 1, AddEventClient ''e'' 2,
       Iterate (CaseTInfo (Recv (Some [''n1'' \<mapsto> ''Ready'']))) UNIV,
       Iterate (CaseStats (Recv 10)) UNIV,
       Iterate (CaseEvents (Recv ''boot'')) UNIV])) = [(2, ''boot'')]"
  by (simp add: initState_def zeroLabStatus_def addStatusClient_def addEventClient_def
      loopBody_def broadcastStatus_def statusSends_def eventSends_def emit_def)

end
